theory Spec2Isabelle
  imports Main "HOL-Library.Word" "HOL-Library.List_Lexorder"
begin

unbundle bit_operations_syntax

section \<open>Data model of \<open>src/model/primitives/hash.ts\<close>\<close>

text \<open>
  A \<open>Uint8Array\<close> is a list of 8-bit words. A JavaScript string is kept as the list of
  the bytes of its UTF-8 encoding (\<open>string\<close> is \<open>char list\<close>, one \<open>char\<close> per byte):
  this is the view \<open>decodeHex\<close> takes of its argument, and for the ASCII prefix \<open>0x\<close>
  the tests \<open>startsWith\<close> and \<open>slice(2)\<close> give the same answer on code units as on bytes.
  The strings \<open>toString\<close> returns are ASCII, so \<open>substring\<close> counts the same characters
  on them in both views.
\<close>

type_synonym byte = "8 word"

text \<open>
  What the module can throw. \<open>Error\<close> is the \<open>new Error(message)\<close> of the private
  constructor. \<open>InvalidByte\<close> (a \<open>TypeError\<close>) and \<open>OddLength\<close> (a \<open>RangeError\<close>) are the
  two faults of \<open>decodeHex\<close>, \<open>DigestFault\<close> is a rejection of the digest collaborator.
\<close>

datatype error =
    Error string
  | InvalidByte char
  | OddLength nat
  | DigestFault string

record Hash =
  hash :: "byte list"

definition Hash_LENGTH :: nat where
  "Hash_LENGTH = 32"

subsection \<open>Template literals: a length printed in decimal\<close>

definition digit_char :: "nat \<Rightarrow> char" where
  "digit_char d = char_of (48 + d)"

function number_to_string :: "nat \<Rightarrow> string" where
  "number_to_string n =
     (if n < 10 then [digit_char n]
      else number_to_string (n div 10) @ [digit_char (n mod 10)])"
  by pat_completeness auto
termination
  by (relation "measure (\<lambda>n. n)") auto

declare number_to_string.simps [simp del]

text \<open>Reading a decimal numeral back, to state what a message carries.\<close>

definition decimal_value :: "string \<Rightarrow> nat" where
  "decimal_value s = foldl (\<lambda>acc c. 10 * acc + (of_char c - 48)) 0 s"

definition validation_message :: "nat \<Rightarrow> string" where
  "validation_message n =
     ''Hash validation failed: expected '' @ number_to_string Hash_LENGTH
       @ '' bytes, but got '' @ number_to_string n @ ''.''"

subsection \<open>The private constructor and \<open>fromBytes\<close>\<close>

definition new_Hash :: "byte list \<Rightarrow> error + Hash" where
  "new_Hash h =
     (if length h \<noteq> Hash_LENGTH then Inl (Error (validation_message (length h)))
      else Inr \<lparr>hash = h\<rparr>)"

definition fromBytes :: "byte list \<Rightarrow> error + Hash" where
  "fromBytes bytes = new_Hash bytes"

definition getBytes :: "Hash \<Rightarrow> byte list" where
  "getBytes this = hash this"

subsection \<open>The hexadecimal codec\<close>

text \<open>
  Modelled from the spec: \<open>encodeHex\<close> and \<open>decodeHex\<close> are imported from the package
  \<open>@std/encoding\<close>, whose source is not part of \<open>src/\<close>. The spec describes the pair as a
  hexadecimal encoder and decoder between byte sequences and strings of even length: the
  encoder writes two lower-case characters (0-9, a-f) per byte, the decoder fails on a
  character that is not a hexadecimal digit and on a string of odd length. The decoder
  reads the digits of both cases, checks the characters pair by pair from the left and
  reports an odd length only after the last character has been checked, as the package
  does.
\<close>

text \<open>Modelled from the spec: the sixteen lower-case digits (0-9, a-f) of the encoder.\<close>

definition hexTable :: string where
  "hexTable = ''0123456789abcdef''"

text \<open>
  Modelled from the spec: the value of a hexadecimal digit of the decoder, or its failure
  on a character that is not one.
\<close>

definition fromHexChar :: "char \<Rightarrow> error + nat" where
  "fromHexChar c =
     (let byte = (of_char c :: nat) in
      if 48 \<le> byte \<and> byte \<le> 57 then Inr (byte - 48)
      else if 97 \<le> byte \<and> byte \<le> 102 then Inr (byte - 97 + 10)
      else if 65 \<le> byte \<and> byte \<le> 70 then Inr (byte - 65 + 10)
      else Inl (InvalidByte c))"

text \<open>
  Modelled from the spec: \<open>encodeHex\<close> of \<open>@std/encoding\<close>, two characters per byte, the
  digit of the high four bits first.
\<close>

definition encode_byte :: "byte \<Rightarrow> string" where
  "encode_byte v = [hexTable ! unat (drop_bit 4 v), hexTable ! unat (v AND 0x0f)]"

definition encodeHex :: "byte list \<Rightarrow> string" where
  "encodeHex src = concat (map encode_byte src)"

text \<open>
  Modelled from the spec: \<open>decodeHex\<close> of \<open>@std/encoding\<close>. \<open>decode_pairs\<close> is its loop
  over the pairs of characters, followed by the check of a last unpaired character; its
  first argument is the length of the whole input, which the odd-length fault reports.
\<close>

fun decode_pairs :: "nat \<Rightarrow> string \<Rightarrow> error + byte list" where
  "decode_pairs len [] = Inr []"
| "decode_pairs len [c] =
     (case fromHexChar c of Inl e \<Rightarrow> Inl e | Inr _ \<Rightarrow> Inl (OddLength len))"
| "decode_pairs len (c # d # rest) =
     (case fromHexChar c of Inl e \<Rightarrow> Inl e
      | Inr a \<Rightarrow>
          (case fromHexChar d of Inl e \<Rightarrow> Inl e
           | Inr b \<Rightarrow>
               (case decode_pairs len rest of Inl e \<Rightarrow> Inl e
                | Inr dst \<Rightarrow> Inr (word_of_nat (push_bit 4 a OR b) # dst))))"

definition decodeHex :: "string \<Rightarrow> error + byte list" where
  "decodeHex src = decode_pairs (length src) src"

subsection \<open>\<open>parse\<close>, \<open>digest\<close> and the formatting methods\<close>

definition startsWith :: "string \<Rightarrow> string \<Rightarrow> bool" where
  "startsWith s p = (take (length p) s = p)"

definition slice :: "string \<Rightarrow> nat \<Rightarrow> string" where
  "slice s n = drop n s"

definition parse :: "string \<Rightarrow> error + Hash" where
  "parse hex =
     (let cleanHex = (if startsWith hex ''0x'' then slice hex 2 else hex) in
      case decodeHex cleanHex of
        Inl e \<Rightarrow> Inl e
      | Inr bytes \<Rightarrow> new_Hash bytes)"

text \<open>
  \<open>crypto.subtle.digest("SHA3-256", _)\<close> is a collaborator outside the module: it is a
  parameter, and a rejected promise is an \<open>Inl\<close>.
\<close>

definition digest :: "(byte list \<Rightarrow> error + byte list) \<Rightarrow> byte list \<Rightarrow> error + Hash" where
  "digest subtle_digest data =
     (case subtle_digest data of
        Inl e \<Rightarrow> Inl e
      | Inr arrayBuffer \<Rightarrow> new_Hash arrayBuffer)"

definition toString :: "Hash \<Rightarrow> string" where
  "toString this = encodeHex (hash this)"

text \<open>
  \<open>String.prototype.substring\<close>: both indices are clamped to the string and swapped when
  they come in the wrong order; with one argument the end is the length.
\<close>

definition substring :: "string \<Rightarrow> int \<Rightarrow> int \<Rightarrow> string" where
  "substring s start fin =
     (let len = int (length s);
          a = max 0 (min start len);
          b = max 0 (min fin len);
          lo = min a b;
          hi = max a b
      in take (nat (hi - lo)) (drop (nat lo) s))"

definition substring_from :: "string \<Rightarrow> int \<Rightarrow> string" where
  "substring_from s start = substring s start (int (length s))"

definition toShortString :: "Hash \<Rightarrow> string" where
  "toShortString this =
     (let hex = toString this in
      substring hex 0 6 @ ''...'' @ substring_from hex (int (length hex) - 6))"

definition toJSON :: "Hash \<Rightarrow> string" where
  "toJSON this = toString this"

subsection \<open>\<open>compareTo\<close> and \<open>equals\<close>\<close>

text \<open>
  An element read of a typed array gives \<open>undefined\<close> (here \<open>None\<close>) past the end.
  \<open>!==\<close> on two such values is inequality; \<open><\<close> is false as soon as one side is
  \<open>undefined\<close>; the bitwise operators read \<open>undefined\<close> as 0 and work on 32-bit integers.
\<close>

definition element :: "byte list \<Rightarrow> nat \<Rightarrow> byte option" where
  "element a i = (if i < length a then Some (a ! i) else None)"

definition js_less :: "byte option \<Rightarrow> byte option \<Rightarrow> bool" where
  "js_less a b = (case (a, b) of (Some x, Some y) \<Rightarrow> unat x < unat y | _ \<Rightarrow> False)"

definition ToInt32 :: "byte option \<Rightarrow> 32 word" where
  "ToInt32 v = (case v of None \<Rightarrow> 0 | Some x \<Rightarrow> ucast x)"

function compareTo_loop :: "Hash \<Rightarrow> Hash \<Rightarrow> nat \<Rightarrow> int" where
  "compareTo_loop this other i =
     (if i < Hash_LENGTH then
        (let a = element (hash this) i;
             b = element (hash other) i
         in if a \<noteq> b then (if js_less a b then - 1 else 1)
            else compareTo_loop this other (i + 1))
      else 0)"
  by pat_completeness auto
termination
  by (relation "measure (\<lambda>(this, other, i). Hash_LENGTH - i)") auto

declare compareTo_loop.simps [simp del]

definition compareTo :: "Hash \<Rightarrow> Hash \<Rightarrow> int" where
  "compareTo this other = compareTo_loop this other 0"

function equals_loop :: "Hash \<Rightarrow> Hash \<Rightarrow> nat \<Rightarrow> 32 word \<Rightarrow> 32 word" where
  "equals_loop this other i diff =
     (if i < Hash_LENGTH then
        equals_loop this other (i + 1)
          (diff OR (ToInt32 (element (hash this) i) XOR ToInt32 (element (hash other) i)))
      else diff)"
  by pat_completeness auto
termination
  by (relation "measure (\<lambda>(this, other, i, diff). Hash_LENGTH - i)") auto

declare equals_loop.simps [simp del]

definition equals :: "Hash \<Rightarrow> Hash option \<Rightarrow> bool" where
  "equals this other =
     (case other of
        None \<Rightarrow> False
      | Some other' \<Rightarrow> equals_loop this other' 0 0 = 0)"

definition emptyHash :: "error + Hash" where
  "emptyHash = parse ''0000000000000000000000000000000000000000000000000000000000000000''"

subsection \<open>Vocabulary of the properties\<close>

text \<open>The characters a hexadecimal string is made of, in either case.\<close>

definition is_hex_char :: "char \<Rightarrow> bool" where
  "is_hex_char c = (c \<in> set ''0123456789abcdefABCDEF'')"

text \<open>
  The spec's comparison, in its own words: the three-way result of the unsigned, byte-wise
  lexicographic order. \<open><\<close> on bytes is the unsigned order of words, and on lists the
  lexicographic order built from it.
\<close>

definition lexicographic_compare :: "byte list \<Rightarrow> byte list \<Rightarrow> int" where
  "lexicographic_compare xs ys = (if xs < ys then - 1 else if xs = ys then 0 else 1)"

text \<open>
  The argument of \<open>parse\<close> without the prefix \<open>parse\<close> takes off: the \<open>cleanHex\<close> of the
  source, named for the statements about it.
\<close>

definition cleanHex :: "string \<Rightarrow> string" where
  "cleanHex hex = (if take 2 hex = ''0x'' then drop 2 hex else hex)"

text \<open>
  The spec's optional prefix, in its own words: a hexadecimal string is optionally
  prefixed with \<open>0x\<close> or \<open>0X\<close>, two characters that are ignored.
\<close>

definition without_optional_prefix :: "string \<Rightarrow> string" where
  "without_optional_prefix s =
     (if take 2 s = ''0x'' \<or> take 2 s = ''0X'' then drop 2 s else s)"

text \<open>
  The constructor is private, so a Hash exists only as the result of one of the three
  static factories; the digest collaborator is a parameter.
\<close>

inductive constructed :: "(byte list \<Rightarrow> error + byte list) \<Rightarrow> Hash \<Rightarrow> bool"
  for subtle_digest :: "byte list \<Rightarrow> error + byte list" where
  by_fromBytes: "fromBytes bytes = Inr h \<Longrightarrow> constructed subtle_digest h"
| by_parse: "parse hex = Inr h \<Longrightarrow> constructed subtle_digest h"
| by_digest: "digest subtle_digest data = Inr h \<Longrightarrow> constructed subtle_digest h"


section \<open>The hexadecimal codec\<close>

lemma fromHexChar_hexTable_all: "\<forall>n \<in> set [0..<16]. fromHexChar (hexTable ! n) = Inr n"
  by code_simp

lemma fromHexChar_hexTable: "n < 16 \<Longrightarrow> fromHexChar (hexTable ! n) = Inr n"
  using fromHexChar_hexTable_all by simp

lemma high_nibble_eq: "unat (drop_bit 4 (v::byte)) = unat v div 16"
  using drop_bit_eq_div [of 4 "unat v"] by (simp add: unat_drop_bit_eq)

lemma high_nibble_lt: "unat (drop_bit 4 (v::byte)) < 16"
  using unsigned_less [of v, where 'a=nat] by (simp add: high_nibble_eq)

lemma low_nibble_eq: "unat ((v::byte) AND 0x0f) = unat v mod 16"
proof -
  have "(v AND 0x0f) = take_bit 4 v"
    by (simp add: take_bit_eq_mask mask_eq_exp_minus_1)
  then have "unat (v AND 0x0f) = take_bit 4 (unat v)"
    by (simp only: unsigned_take_bit_eq)
  then show ?thesis
    by (simp add: take_bit_eq_mod)
qed

lemma low_nibble_lt: "unat ((v::byte) AND 0x0f) < 16"
  by (simp add: low_nibble_eq)

lemma nibbles_join:
  "word_of_nat (push_bit 4 (unat (drop_bit 4 v)) OR unat (v AND 0x0f)) = (v::byte)"
proof -
  have m: "(v AND 0x0f) = take_bit 4 v"
    by (simp add: take_bit_eq_mask mask_eq_exp_minus_1)
  have "word_of_nat (push_bit 4 (unat (drop_bit 4 v)) OR unat (v AND 0x0f))
      = push_bit 4 (drop_bit 4 v) OR take_bit 4 v"
    by (simp add: of_nat_or_eq of_nat_push_bit m)
  also have "\<dots> = v"
    by (rule bit_word_eqI) (auto simp: bit_simps)
  finally show ?thesis .
qed

lemma decode_pairs_encodeHex: "decode_pairs len (encodeHex bs) = Inr bs"
  by (induction bs)
    (simp_all add: encodeHex_def encode_byte_def fromHexChar_hexTable high_nibble_lt
      low_nibble_lt nibbles_join)

lemma decodeHex_encodeHex: "decodeHex (encodeHex bs) = Inr bs"
  by (simp add: decodeHex_def decode_pairs_encodeHex)

lemma length_encodeHex: "length (encodeHex bs) = 2 * length bs"
  by (induction bs) (simp_all add: encodeHex_def encode_byte_def)

lemma hexTable_nth_mem: "n < 16 \<Longrightarrow> hexTable ! n \<in> set hexTable"
proof -
  have "length hexTable = 16"
    by (simp add: hexTable_def)
  then show "n < 16 \<Longrightarrow> hexTable ! n \<in> set hexTable"
    by (metis nth_mem)
qed

lemma set_encodeHex: "set (encodeHex bs) \<subseteq> set hexTable"
  by (induction bs)
    (simp_all add: encodeHex_def encode_byte_def hexTable_nth_mem high_nibble_lt low_nibble_lt)

lemma encodeHex_no_prefix: "\<not> startsWith (encodeHex bs) ''0x''"
proof
  assume "startsWith (encodeHex bs) ''0x''"
  then have "take 2 (encodeHex bs) = ''0x''"
    by (simp add: startsWith_def numeral_2_eq_2)
  then have "CHR ''x'' \<in> set (take 2 (encodeHex bs))"
    by simp
  then have "CHR ''x'' \<in> set (encodeHex bs)"
    by (rule in_set_takeD)
  with set_encodeHex have "CHR ''x'' \<in> set hexTable"
    by blast
  then show False
    by (simp add: hexTable_def)
qed

lemma fromHexChar_Inr_iff: "(\<exists>v. fromHexChar c = Inr v) \<longleftrightarrow> is_hex_char c"
proof
  assume "is_hex_char c"
  then show "\<exists>v. fromHexChar c = Inr v"
    by (auto simp: is_hex_char_def fromHexChar_def)
next
  assume "\<exists>v. fromHexChar c = Inr v"
  then have r: "(48 \<le> (of_char c :: nat) \<and> (of_char c :: nat) \<le> 57)
      \<or> (97 \<le> (of_char c :: nat) \<and> (of_char c :: nat) \<le> 102)
      \<or> (65 \<le> (of_char c :: nat) \<and> (of_char c :: nat) \<le> 70)"
    by (auto simp: fromHexChar_def Let_def split: if_splits)
  have "\<forall>n \<in> set ([48..<58] @ [97..<103] @ [65..<71]). is_hex_char (char_of (n::nat))"
    by code_simp
  moreover have "(of_char c :: nat) \<in> set ([48..<58] @ [97..<103] @ [65..<71])"
    unfolding set_append set_upt Un_iff atLeastLessThan_iff using r by linarith
  ultimately have "is_hex_char (char_of (of_char c :: nat))"
    by blast
  then show "is_hex_char c"
    by simp
qed

section \<open>The constructor and the decoder\<close>

lemma number_to_string_32: "number_to_string 32 = ''32''"
  by code_simp

lemma of_char_digit_char: "d < 10 \<Longrightarrow> (of_char (digit_char d) :: nat) = 48 + d"
  by (simp add: digit_char_def)

lemma decimal_value_snoc:
  "decimal_value (s @ [c]) = 10 * decimal_value s + (of_char c - 48)"
  by (simp add: decimal_value_def)

lemma decimal_value_number_to_string: "decimal_value (number_to_string n) = n"
proof (induction n rule: number_to_string.induct)
  case (1 n)
  show ?case
  proof (cases "n < 10")
    case True
    then show ?thesis
      by (simp add: number_to_string.simps [of n] decimal_value_def of_char_digit_char)
  next
    case False
    with 1 have "decimal_value (number_to_string (n div 10)) = n div 10"
      by simp
    with False show ?thesis
      by (simp add: number_to_string.simps [of n] decimal_value_snoc of_char_digit_char)
  qed
qed

lemma validation_message_eq:
  "validation_message n =
     ''Hash validation failed: expected 32 bytes, but got '' @ number_to_string n @ ''.''"
  by (simp add: validation_message_def Hash_LENGTH_def number_to_string_32)

lemma new_Hash_Inr_iff: "new_Hash bs = Inr h \<longleftrightarrow> length bs = 32 \<and> h = \<lparr>hash = bs\<rparr>"
  by (auto simp: new_Hash_def Hash_LENGTH_def)

lemma new_Hash_Inl_iff:
  "new_Hash bs = Inl e \<longleftrightarrow> length bs \<noteq> 32 \<and> e = Error (validation_message (length bs))"
  by (auto simp: new_Hash_def Hash_LENGTH_def)

lemma fromHexChar_Inr_hex: "fromHexChar c = Inr a \<Longrightarrow> is_hex_char c"
  using fromHexChar_Inr_iff [of c] by blast

lemma fromHexChar_Inl_not_hex: "fromHexChar c = Inl e \<Longrightarrow> \<not> is_hex_char c"
  using fromHexChar_Inr_iff [of c] by auto

lemma fromHexChar_Inl_eq: "fromHexChar c = Inl e \<Longrightarrow> e = InvalidByte c"
  by (auto simp: fromHexChar_def Let_def split: if_splits)

lemma decode_pairs_Inr_iff:
  "(\<exists>bs. decode_pairs len s = Inr bs) \<longleftrightarrow> (\<forall>c \<in> set s. is_hex_char c) \<and> even (length s)"
proof (induction len s rule: decode_pairs.induct)
  case (1 len)
  show ?case by simp
next
  case (2 len c)
  show ?case by (simp split: sum.splits)
next
  case (3 len c d rest)
  show ?case
  proof (cases "fromHexChar c")
    case (Inl e)
    then show ?thesis
      by (simp add: fromHexChar_Inl_not_hex)
  next
    case a: (Inr a)
    show ?thesis
    proof (cases "fromHexChar d")
      case (Inl e)
      with a show ?thesis
        by (simp add: fromHexChar_Inl_not_hex)
    next
      case b: (Inr b)
      from 3 [OF a b] a b show ?thesis
        by (auto simp: fromHexChar_Inr_hex split: sum.splits)
    qed
  qed
qed

lemma decode_pairs_length: "decode_pairs len s = Inr bs \<Longrightarrow> 2 * length bs = length s"
  by (induction len s arbitrary: bs rule: decode_pairs.induct) (auto split: sum.splits)

lemma decode_pairs_Inl:
  "decode_pairs len s = Inl e \<Longrightarrow>
     (\<exists>c \<in> set s. \<not> is_hex_char c \<and> e = InvalidByte c)
     \<or> ((\<forall>c \<in> set s. is_hex_char c) \<and> odd (length s) \<and> e = OddLength len)"
proof (induction len s rule: decode_pairs.induct)
  case (1 len)
  then show ?case by simp
next
  case (2 len c)
  then show ?case
    by (auto simp: fromHexChar_Inr_hex fromHexChar_Inl_not_hex dest: fromHexChar_Inl_eq
        split: sum.splits)
next
  case (3 len c d rest)
  show ?case
  proof (cases "fromHexChar c")
    case (Inl e')
    with 3(2) show ?thesis
      by (auto simp: fromHexChar_Inl_not_hex dest: fromHexChar_Inl_eq)
  next
    case a: (Inr a)
    show ?thesis
    proof (cases "fromHexChar d")
      case (Inl e')
      with a 3(2) show ?thesis
        by (auto simp: fromHexChar_Inl_not_hex dest: fromHexChar_Inl_eq)
    next
      case b: (Inr b)
      with a 3(2) have "decode_pairs len rest = Inl e"
        by (simp split: sum.splits)
      from 3(1) [OF a b this] a b show ?thesis
        by (auto simp: fromHexChar_Inr_hex)
    qed
  qed
qed

section \<open>Construction from raw bytes\<close>

text \<open>
  Claim C2 (length invariant of \<open>fromBytes\<close>). A sequence of exactly 32 bytes gives a Hash
  that holds these bytes, and \<open>getBytes\<close> returns them. A sequence of any other length
  \<open>n\<close> gives no Hash: the constructor throws the error whose message is
  \<open>Hash validation failed: expected 32 bytes, but got n.\<close>, with \<open>n\<close> printed in decimal,
  so that the message carries the expected length 32 and the actual length.
\<close>

theorem fromBytes_length_invariant:
  "fromBytes b =
     (if length b = 32 then Inr \<lparr>hash = b\<rparr>
      else Inl (Error (''Hash validation failed: expected 32 bytes, but got ''
                  @ number_to_string (length b) @ ''.'')))
   \<and> decimal_value (number_to_string (length b)) = length b
   \<and> (\<forall>h. fromBytes b = Inr h \<longrightarrow> length b = 32 \<and> hash h = b \<and> getBytes h = b)
   \<and> (length b \<noteq> 32 \<longrightarrow> (\<exists>e. fromBytes b = Inl e))"
  by (auto simp: fromBytes_def new_Hash_def Hash_LENGTH_def validation_message_eq
      decimal_value_number_to_string getBytes_def)

theorem fromBytes_length_invariant_witness:
  "fromBytes (replicate 32 7) = Inr \<lparr>hash = replicate 32 7\<rparr>
   \<and> fromBytes (replicate 33 0)
       = Inl (Error ''Hash validation failed: expected 32 bytes, but got 33.'')"
proof -
  have n: "number_to_string 33 = ''33''"
    by code_simp
  show ?thesis
    using fromBytes_length_invariant [of "replicate 32 7"]
      fromBytes_length_invariant [of "replicate 33 0"]
    by (simp add: n)
qed

section \<open>Equality and ordering\<close>

lemma xor_zero_iff: "(x XOR y = (0::'a::len word)) \<longleftrightarrow> x = y"
proof
  assume h: "x XOR y = 0"
  have "x = (x XOR y) XOR y"
    by (simp add: xor.assoc)
  with h show "x = y"
    by simp
qed simp

lemma ucast_byte_inj: "(ucast (x::byte) = (ucast (y::byte) :: 32 word)) \<longleftrightarrow> x = y"
proof
  assume h: "ucast x = (ucast y :: 32 word)"
  have "ucast (ucast x :: 32 word) = x" "ucast (ucast y :: 32 word) = y"
    by (simp_all add: ucast_up_ucast_id is_up)
  with h show "x = y"
    by metis
qed simp

lemma byte_pair_differs:
  "i < length xs \<Longrightarrow> i < length ys \<Longrightarrow>
   (ToInt32 (element xs i) XOR ToInt32 (element ys i) = 0) \<longleftrightarrow> xs ! i = ys ! i"
  by (simp add: element_def ToInt32_def xor_zero_iff ucast_byte_inj)

lemma all_from_split:
  fixes i n :: nat
  assumes "i < n"
  shows "(\<forall>j. i \<le> j \<and> j < n \<longrightarrow> P j) \<longleftrightarrow> P i \<and> (\<forall>j. i + 1 \<le> j \<and> j < n \<longrightarrow> P j)"
proof
  assume "\<forall>j. i \<le> j \<and> j < n \<longrightarrow> P j"
  with assms show "P i \<and> (\<forall>j. i + 1 \<le> j \<and> j < n \<longrightarrow> P j)"
    by auto
next
  assume r: "P i \<and> (\<forall>j. i + 1 \<le> j \<and> j < n \<longrightarrow> P j)"
  show "\<forall>j. i \<le> j \<and> j < n \<longrightarrow> P j"
  proof (intro allI impI)
    fix j
    assume "i \<le> j \<and> j < n"
    then have "j = i \<or> (i + 1 \<le> j \<and> j < n)"
      by auto
    with r show "P j"
      by auto
  qed
qed

lemma equals_loop_zero_iff:
  "equals_loop a b i d = 0 \<longleftrightarrow>
     d = 0 \<and> (\<forall>j. i \<le> j \<and> j < Hash_LENGTH \<longrightarrow>
       ToInt32 (element (hash a) j) XOR ToInt32 (element (hash b) j) = 0)"
proof (induction a b i d rule: equals_loop.induct)
  case (1 this other i diff)
  define x where "x = (\<lambda>j. ToInt32 (element (hash this) j) XOR ToInt32 (element (hash other) j))"
  show ?case
  proof (cases "i < Hash_LENGTH")
    case True
    have step: "equals_loop this other i diff = equals_loop this other (i + 1) (diff OR x i)"
      by (subst equals_loop.simps) (simp add: True x_def)
    have ih: "equals_loop this other (i + 1) (diff OR x i) = 0 \<longleftrightarrow>
        diff OR x i = 0 \<and> (\<forall>j. i + 1 \<le> j \<and> j < Hash_LENGTH \<longrightarrow> x j = 0)"
      using 1 [OF True] by (simp add: x_def)
    have "equals_loop this other i diff = 0 \<longleftrightarrow>
        diff = 0 \<and> (\<forall>j. i \<le> j \<and> j < Hash_LENGTH \<longrightarrow> x j = 0)"
      unfolding step ih or_eq_0_iff all_from_split [OF True, of "\<lambda>j. x j = 0"] by blast
    then show ?thesis
      by (simp add: x_def)
  next
    case False
    then have "equals_loop this other i diff = diff"
      by (subst equals_loop.simps) simp
    with False show ?thesis
      by auto
  qed
qed

lemma equals_Some_iff:
  assumes "length (hash a) = 32" and "length (hash b) = 32"
  shows "equals a (Some b) \<longleftrightarrow> hash a = hash b"
proof -
  have "equals a (Some b) \<longleftrightarrow> (\<forall>j < 32. hash a ! j = hash b ! j)"
    using assms by (simp add: equals_def equals_loop_zero_iff Hash_LENGTH_def byte_pair_differs)
  also have "\<dots> \<longleftrightarrow> hash a = hash b"
    using assms by (auto simp: list_eq_iff_nth_eq)
  finally show ?thesis .
qed

lemma js_less_Some: "js_less (Some x) (Some y) \<longleftrightarrow> x < y"
  by (simp add: js_less_def word_less_nat_alt)

lemma lexicographic_compare_Cons:
  "lexicographic_compare (x # xs) (y # ys) = (if x \<noteq> y then (if x < y then - 1 else 1) else lexicographic_compare xs ys)"
  by (auto simp: lexicographic_compare_def)

lemma compareTo_loop_lexicographic_compare:
  "length (hash a) = 32 \<Longrightarrow> length (hash b) = 32 \<Longrightarrow> i \<le> 32 \<Longrightarrow>
   compareTo_loop a b i = lexicographic_compare (drop i (hash a)) (drop i (hash b))"
proof (induction a b i rule: compareTo_loop.induct)
  case (1 this other i)
  note la = \<open>length (hash this) = 32\<close> and lb = \<open>length (hash other) = 32\<close>
  show ?case
  proof (cases "i < 32")
    case False
    with \<open>i \<le> 32\<close> la lb show ?thesis
      by (subst compareTo_loop.simps) (simp add: Hash_LENGTH_def lexicographic_compare_def)
  next
    case True
    then have i: "i < Hash_LENGTH"
      by (simp add: Hash_LENGTH_def)
    have da: "drop i (hash this) = hash this ! i # drop (i + 1) (hash this)"
      and db: "drop i (hash other) = hash other ! i # drop (i + 1) (hash other)"
      using True la lb by (simp_all add: Cons_nth_drop_Suc)
    have ea: "element (hash this) i = Some (hash this ! i)"
      and eb: "element (hash other) i = Some (hash other ! i)"
      using True la lb by (simp_all add: element_def)
    show ?thesis
    proof (cases "hash this ! i = hash other ! i")
      case same: True
      have "compareTo_loop this other i = compareTo_loop this other (i + 1)"
        by (subst compareTo_loop.simps) (simp add: i ea eb same)
      also have "\<dots> = lexicographic_compare (drop (i + 1) (hash this)) (drop (i + 1) (hash other))"
        using "1.IH" [OF i refl refl] True la lb by (simp add: ea eb same)
      finally show ?thesis
        by (simp add: da db lexicographic_compare_Cons same)
    next
      case differ: False
      have "compareTo_loop this other i = (if hash this ! i < hash other ! i then - 1 else 1)"
        by (subst compareTo_loop.simps) (simp add: i ea eb differ js_less_Some)
      then show ?thesis
        by (simp add: da db lexicographic_compare_Cons differ)
    qed
  qed
qed

lemma list_less_first_difference:
  fixes xs ys :: "byte list"
  shows "length xs = length ys \<Longrightarrow>
    xs < ys \<longleftrightarrow> (\<exists>k < length xs. take k xs = take k ys \<and> xs ! k < ys ! k)"
proof (induction xs ys rule: list_induct2)
  case Nil
  show ?case by simp
next
  case (Cons x xs y ys)
  then show ?case
    by (auto simp: Ex_less_Suc2)
qed

lemma lexicographic_compare_values:
  "lexicographic_compare xs ys = - 1 \<longleftrightarrow> xs < ys"
  "lexicographic_compare xs ys = 0 \<longleftrightarrow> xs = ys"
  "lexicographic_compare xs ys = 1 \<longleftrightarrow> ys < xs"
  by (auto simp: lexicographic_compare_def)

lemma lexicographic_compare_flip: "lexicographic_compare ys xs = - lexicographic_compare xs ys"
  by (auto simp: lexicographic_compare_def)

lemma lexicographic_compare_le_0: "lexicographic_compare xs ys \<le> 0 \<longleftrightarrow> xs \<le> ys"
  by (auto simp: lexicographic_compare_def)

lemma compareTo_lexicographic_compare:
  "length (hash a) = 32 \<Longrightarrow> length (hash b) = 32 \<Longrightarrow>
   compareTo a b = lexicographic_compare (hash a) (hash b)"
  using compareTo_loop_lexicographic_compare [of a b 0] by (simp add: compareTo_def)

text \<open>
  Claim C4 (\<open>compareTo\<close>). For Hashes of 32 bytes, \<open>compareTo\<close> is the three-way
  unsigned lexicographic comparison of the bytes from index 0: the result is -1 exactly
  when, at the first index where the two differ, this Hash's byte is the smaller one, 1
  exactly when it is the larger one, and 0 exactly when all 32 bytes agree. The relation
  \<open>compareTo a b \<le> 0\<close> is reflexive, antisymmetric, transitive and total, swapping the
  arguments negates the result, and \<open>equals\<close> holds exactly when \<open>compareTo\<close> returns 0.
\<close>

theorem compareTo_lexicographic_total_order:
  assumes a: "length (hash a) = 32" and b: "length (hash b) = 32" and c: "length (hash c) = 32"
  shows "compareTo a b = lexicographic_compare (hash a) (hash b)
    \<and> (compareTo a b = - 1 \<longleftrightarrow>
          (\<exists>k < 32. take k (hash a) = take k (hash b) \<and> hash a ! k < hash b ! k))
    \<and> (compareTo a b = 1 \<longleftrightarrow>
          (\<exists>k < 32. take k (hash a) = take k (hash b) \<and> hash b ! k < hash a ! k))
    \<and> (compareTo a b = 0 \<longleftrightarrow> (\<forall>k < 32. hash a ! k = hash b ! k))
    \<and> compareTo a b \<in> {- 1, 0, 1}
    \<and> compareTo a a = 0
    \<and> compareTo b a = - compareTo a b
    \<and> (compareTo a b \<le> 0 \<and> compareTo b a \<le> 0 \<longrightarrow> hash a = hash b)
    \<and> (compareTo a b \<le> 0 \<and> compareTo b c \<le> 0 \<longrightarrow> compareTo a c \<le> 0)
    \<and> (compareTo a b \<le> 0 \<or> compareTo b a \<le> 0)
    \<and> (equals a (Some b) \<longleftrightarrow> compareTo a b = 0)"
proof -
  note cmp = compareTo_lexicographic_compare [OF a b] compareTo_lexicographic_compare [OF b a]
    compareTo_lexicographic_compare [OF a a] compareTo_lexicographic_compare [OF b c] compareTo_lexicographic_compare [OF a c]
  have p_less: "compareTo a b = - 1 \<longleftrightarrow>
      (\<exists>k < 32. take k (hash a) = take k (hash b) \<and> hash a ! k < hash b ! k)"
    using list_less_first_difference [of "hash a" "hash b"] a b
    by (simp add: cmp lexicographic_compare_values)
  have p_greater: "compareTo a b = 1 \<longleftrightarrow>
      (\<exists>k < 32. take k (hash a) = take k (hash b) \<and> hash b ! k < hash a ! k)"
    using list_less_first_difference [of "hash b" "hash a"] a b
    by (simp add: cmp lexicographic_compare_values) metis
  have p_eq: "compareTo a b = 0 \<longleftrightarrow> (\<forall>k < 32. hash a ! k = hash b ! k)"
    using a b by (simp add: cmp lexicographic_compare_values list_eq_iff_nth_eq)
  have p_range: "compareTo a b \<in> {- 1, 0, 1}"
    by (simp add: cmp lexicographic_compare_def)
  have p_refl: "compareTo a a = 0"
    by (simp add: cmp lexicographic_compare_values)
  have p_flip: "compareTo b a = - compareTo a b"
    unfolding cmp by (rule lexicographic_compare_flip)
  have p_antisym: "compareTo a b \<le> 0 \<and> compareTo b a \<le> 0 \<longrightarrow> hash a = hash b"
    by (auto simp: cmp lexicographic_compare_le_0)
  have p_trans: "compareTo a b \<le> 0 \<and> compareTo b c \<le> 0 \<longrightarrow> compareTo a c \<le> 0"
    by (auto simp: cmp lexicographic_compare_le_0)
  have p_total: "compareTo a b \<le> 0 \<or> compareTo b a \<le> 0"
    by (auto simp: cmp lexicographic_compare_le_0)
  have p_equals: "equals a (Some b) \<longleftrightarrow> compareTo a b = 0"
    by (simp add: equals_Some_iff [OF a b] cmp lexicographic_compare_values)
  show ?thesis
    by (intro conjI)
      (fact cmp(1) p_less p_greater p_eq p_range p_refl p_flip p_antisym p_trans p_total p_equals)+
qed

theorem compareTo_lexicographic_total_order_witness:
  "compareTo \<lparr>hash = replicate 31 0 @ [1]\<rparr> \<lparr>hash = replicate 31 0 @ [2]\<rparr> = - 1
   \<and> compareTo \<lparr>hash = replicate 31 0 @ [2]\<rparr> \<lparr>hash = replicate 31 0 @ [1]\<rparr> = 1
   \<and> compareTo \<lparr>hash = replicate 31 0 @ [1]\<rparr> \<lparr>hash = replicate 31 0 @ [1]\<rparr> = 0
   \<and> lexicographic_compare (replicate 31 0 @ [1]) (replicate 31 0 @ [2]) = - 1
   \<and> \<not> equals \<lparr>hash = replicate 31 0 @ [1]\<rparr> (Some \<lparr>hash = replicate 31 0 @ [2]\<rparr>)"
proof -
  have v: "compareTo \<lparr>hash = replicate 31 0 @ [1]\<rparr> \<lparr>hash = replicate 31 0 @ [2]\<rparr> = - 1"
    by code_simp
  show ?thesis
    using compareTo_lexicographic_total_order
      [of "\<lparr>hash = replicate 31 0 @ [1]\<rparr>" "\<lparr>hash = replicate 31 0 @ [2]\<rparr>"
          "\<lparr>hash = replicate 31 0 @ [1]\<rparr>"]
    by (simp add: v)
qed

text \<open>
  Claim C5 (\<open>equals\<close> with an absent argument). \<open>equals\<close> is a total function to the
  Booleans, with no error among its results: against an absent argument it returns false,
  and against a Hash it returns true exactly when the 32 byte pairs are equal.
\<close>

theorem equals_absent_and_present:
  assumes "length (hash a) = 32" and "length (hash b) = 32"
  shows "equals a None = False
    \<and> (equals a (Some b) \<longleftrightarrow> (\<forall>i < 32. hash a ! i = hash b ! i))
    \<and> (equals a (Some b) \<longleftrightarrow> hash a = hash b)"
  using assms equals_Some_iff [OF assms]
  by (simp add: equals_def list_eq_iff_nth_eq)

theorem equals_absent_and_present_witness:
  "equals \<lparr>hash = replicate 32 9\<rparr> None = False
   \<and> equals \<lparr>hash = replicate 32 9\<rparr> (Some \<lparr>hash = replicate 32 9\<rparr>)
   \<and> \<not> equals \<lparr>hash = replicate 32 9\<rparr> (Some \<lparr>hash = replicate 31 9 @ [8]\<rparr>)"
proof -
  have ne: "replicate 32 (9::byte) \<noteq> replicate 31 9 @ [8]"
    by code_simp
  have same: "equals \<lparr>hash = replicate 32 9\<rparr> None = False
      \<and> equals \<lparr>hash = replicate 32 9\<rparr> (Some \<lparr>hash = replicate 32 9\<rparr>)"
    using equals_absent_and_present [of "\<lparr>hash = replicate 32 9\<rparr>" "\<lparr>hash = replicate 32 9\<rparr>"]
    by simp
  have "equals \<lparr>hash = replicate 32 9\<rparr> (Some \<lparr>hash = replicate 31 9 @ [8]\<rparr>)
      \<longleftrightarrow> replicate 32 (9::byte) = replicate 31 9 @ [8]"
    using equals_absent_and_present
      [of "\<lparr>hash = replicate 32 9\<rparr>" "\<lparr>hash = replicate 31 9 @ [8]\<rparr>",
        THEN conjunct2, THEN conjunct2]
    by simp
  with ne same show ?thesis
    by blast
qed

section \<open>Textual round trip\<close>

lemma parse_encodeHex: "parse (encodeHex bs) = new_Hash bs"
  by (simp add: parse_def encodeHex_no_prefix decodeHex_encodeHex)

lemma hexTable_set: "set hexTable = set ''0123456789abcdef''"
  by (simp add: hexTable_def)

lemma encodeHex_div_mod:
  "encodeHex bs = concat (map (\<lambda>v. [hexTable ! (unat v div 16), hexTable ! (unat v mod 16)]) bs)"
proof -
  have "encode_byte = (\<lambda>v. [hexTable ! (unat v div 16), hexTable ! (unat v mod 16)])"
    by (rule ext) (simp add: encode_byte_def high_nibble_eq low_nibble_eq)
  then show ?thesis
    by (simp add: encodeHex_def)
qed

lemma compareTo_self: "length (hash h) = 32 \<Longrightarrow> compareTo h h = 0"
  by (simp add: compareTo_lexicographic_compare lexicographic_compare_def)

text \<open>
  Claim C1 (round trip). For a sequence \<open>b\<close> of 32 bytes, \<open>fromBytes b\<close> is a Hash whose
  \<open>toString\<close> has 64 characters, all of them lower-case hexadecimal digits (so there is no
  \<open>0x\<close> in front): two per byte, the digit of the high four bits and then the digit of
  the low four bits. \<open>parse\<close> of that string succeeds and gives back the Hash
  \<open>fromBytes b\<close>, equal to it as a value, under \<open>equals\<close> and under \<open>compareTo\<close>.
\<close>

theorem round_trip:
  assumes "length b = 32"
  shows "fromBytes b = Inr \<lparr>hash = b\<rparr>
    \<and> parse (toString \<lparr>hash = b\<rparr>) = fromBytes b
    \<and> (\<exists>h'. parse (toString \<lparr>hash = b\<rparr>) = Inr h' \<and> equals h' (Some \<lparr>hash = b\<rparr>)
          \<and> compareTo h' \<lparr>hash = b\<rparr> = 0 \<and> getBytes h' = b)
    \<and> length (toString \<lparr>hash = b\<rparr>) = 64
    \<and> set (toString \<lparr>hash = b\<rparr>) \<subseteq> set ''0123456789abcdef''
    \<and> \<not> startsWith (toString \<lparr>hash = b\<rparr>) ''0x''
    \<and> toString \<lparr>hash = b\<rparr>
        = concat (map (\<lambda>v. [hexTable ! (unat v div 16), hexTable ! (unat v mod 16)]) b)"
proof -
  have f: "fromBytes b = Inr \<lparr>hash = b\<rparr>"
    using assms by (simp add: fromBytes_def new_Hash_def Hash_LENGTH_def)
  have p: "parse (toString \<lparr>hash = b\<rparr>) = Inr \<lparr>hash = b\<rparr>"
    using assms by (simp add: toString_def parse_encodeHex new_Hash_def Hash_LENGTH_def)
  have e: "equals \<lparr>hash = b\<rparr> (Some \<lparr>hash = b\<rparr>)"
    using assms by (simp add: equals_Some_iff)
  have c: "compareTo \<lparr>hash = b\<rparr> \<lparr>hash = b\<rparr> = 0"
    using assms by (simp add: compareTo_self)
  have l: "length (toString \<lparr>hash = b\<rparr>) = 64"
    using assms by (simp add: toString_def length_encodeHex)
  have s: "set (toString \<lparr>hash = b\<rparr>) \<subseteq> set ''0123456789abcdef''"
    using set_encodeHex [of b] unfolding hexTable_set by (simp add: toString_def)
  have n: "\<not> startsWith (toString \<lparr>hash = b\<rparr>) ''0x''"
    by (simp add: toString_def encodeHex_no_prefix)
  have d: "toString \<lparr>hash = b\<rparr>
      = concat (map (\<lambda>v. [hexTable ! (unat v div 16), hexTable ! (unat v mod 16)]) b)"
    by (simp add: toString_def encodeHex_div_mod)
  from f p e c l s n d show ?thesis
    by (simp add: getBytes_def)
qed

theorem round_trip_witness:
  "parse (toString \<lparr>hash = replicate 31 0 @ [1]\<rparr>) = Inr \<lparr>hash = replicate 31 0 @ [1]\<rparr>
   \<and> toString \<lparr>hash = replicate 31 0 @ [1]\<rparr>
       = ''0000000000000000000000000000000000000000000000000000000000000001''"
proof -
  have t: "toString \<lparr>hash = replicate 31 0 @ [1]\<rparr>
       = ''0000000000000000000000000000000000000000000000000000000000000001''"
    by code_simp
  have l: "length (replicate 31 0 @ [1 :: byte]) = 32"
    by simp
  have r: "parse (toString \<lparr>hash = replicate 31 0 @ [1]\<rparr>) = Inr \<lparr>hash = replicate 31 0 @ [1]\<rparr>"
    using round_trip [OF l, THEN conjunct2, THEN conjunct1] round_trip [OF l, THEN conjunct1]
    by (rule trans)
  from r t show ?thesis
    by (rule conjI)
qed

section \<open>The optional prefix\<close>

lemma hex_string_no_prefix:
  assumes "\<forall>c \<in> set h. is_hex_char c"
  shows "\<not> startsWith h ''0x''"
proof
  assume "startsWith h ''0x''"
  then have "take 2 h = ''0x''"
    by (simp add: startsWith_def numeral_2_eq_2)
  then have "CHR ''x'' \<in> set (take 2 h)"
    by simp
  then have "CHR ''x'' \<in> set h"
    by (rule in_set_takeD)
  with assms have "is_hex_char CHR ''x''"
    by blast
  then show False
    by (simp add: is_hex_char_def)
qed

lemma startsWith_0x_append: "startsWith (''0x'' @ h) ''0x''"
  by (simp add: startsWith_def)

lemma not_startsWith_0X_append: "\<not> startsWith (''0X'' @ h) ''0x''"
  by (simp add: startsWith_def)

lemma decodeHex_0X: "decodeHex (''0X'' @ h) = Inl (InvalidByte CHR ''X'')"
  by (simp add: decodeHex_def fromHexChar_def)

lemma parse_0X: "parse (''0X'' @ h) = Inl (InvalidByte CHR ''X'')"
  by (simp only: parse_def not_startsWith_0X_append decodeHex_0X Let_def if_False sum.case)

lemma decodeHex_valid:
  assumes "\<forall>c \<in> set h. is_hex_char c" and "even (length h)"
  shows "\<exists>bs. decodeHex h = Inr bs \<and> 2 * length bs = length h"
proof -
  from assms obtain bs where "decode_pairs (length h) h = Inr bs"
    using decode_pairs_Inr_iff [of "length h" h] by blast
  then show ?thesis
    by (auto simp: decodeHex_def dest: decode_pairs_length)
qed

text \<open>
  Claim C3 (hex prefix tolerance), as the code has it. The string of 64 zeros is a valid
  hexadecimal string that \<open>parse\<close> accepts, but with \<open>0X\<close> in front \<open>parse\<close> fails: only
  the lower-case prefix is taken off, and the decoder then meets the character \<open>X\<close>.
\<close>

theorem prefix_0X_counterexample:
  "list_all is_hex_char (replicate 64 CHR ''0'')
   \<and> length (replicate 64 CHR ''0'') = 64
   \<and> parse (replicate 64 CHR ''0'') = Inr \<lparr>hash = replicate 32 0\<rparr>
   \<and> parse (''0x'' @ replicate 64 CHR ''0'') = Inr \<lparr>hash = replicate 32 0\<rparr>
   \<and> parse (''0X'' @ replicate 64 CHR ''0'') = Inl (InvalidByte CHR ''X'')"
  by code_simp

text \<open>
  Claim C3, amended. For every string \<open>h\<close> of 64 hexadecimal digits, \<open>parse h\<close> and
  \<open>parse ("0x" + h)\<close> succeed and give the same Hash, which holds the 32 bytes \<open>h\<close>
  decodes to and is equal to itself under \<open>equals\<close>. The upper-case prefix is not
  accepted: \<open>parse ("0X" + h)\<close> fails with the decoder's error for the character \<open>X\<close>.
\<close>

theorem prefix_tolerance:
  assumes "\<forall>c \<in> set h. is_hex_char c" and "length h = 64"
  shows "\<exists>x. parse h = Inr x \<and> parse (''0x'' @ h) = Inr x
      \<and> decodeHex h = Inr (hash x) \<and> length (hash x) = 32 \<and> equals x (Some x)
      \<and> parse (''0X'' @ h) = Inl (InvalidByte CHR ''X'')"
proof -
  from assms obtain bs where bs: "decodeHex h = Inr bs" and len: "length bs = 32"
    using decodeHex_valid [of h] by auto
  have n: "\<not> startsWith h ''0x''"
    using assms(1) by (rule hex_string_no_prefix)
  have p: "parse h = Inr \<lparr>hash = bs\<rparr>"
    by (simp add: parse_def n bs new_Hash_def Hash_LENGTH_def len)
  have q: "parse (''0x'' @ h) = Inr \<lparr>hash = bs\<rparr>"
    by (simp add: parse_def startsWith_def slice_def bs new_Hash_def Hash_LENGTH_def len)
  have e: "equals \<lparr>hash = bs\<rparr> (Some \<lparr>hash = bs\<rparr>)"
    by (simp add: equals_Some_iff len)
  from p q bs len e parse_0X [of h] show ?thesis
    by simp
qed

theorem prefix_tolerance_witness:
  "parse ''00000000000000000000000000000000000000000000000000000000000000ff''
     = parse ''0x00000000000000000000000000000000000000000000000000000000000000ff''
   \<and> parse ''00000000000000000000000000000000000000000000000000000000000000ff''
     = Inr \<lparr>hash = replicate 31 0 @ [255]\<rparr>"
proof -
  have v: "\<forall>c \<in> set ''00000000000000000000000000000000000000000000000000000000000000ff''.
      is_hex_char c"
    by (simp add: is_hex_char_def)
  have l: "length ''00000000000000000000000000000000000000000000000000000000000000ff'' = 64"
    by simp
  have d: "parse ''00000000000000000000000000000000000000000000000000000000000000ff''
     = Inr \<lparr>hash = replicate 31 0 @ [255]\<rparr>"
    by code_simp
  from prefix_tolerance [OF v l] obtain x where
    "parse ''00000000000000000000000000000000000000000000000000000000000000ff'' = Inr x"
    "parse (''0x'' @ ''00000000000000000000000000000000000000000000000000000000000000ff'') = Inr x"
    by blast
  with d show ?thesis
    by simp
qed

section \<open>Failure conditions of parse\<close>

lemma parse_cleanHex:
  "parse hex = (case decodeHex (cleanHex hex) of Inl e \<Rightarrow> Inl e | Inr bytes \<Rightarrow> new_Hash bytes)"
  by (simp add: parse_def cleanHex_def startsWith_def slice_def numeral_2_eq_2)

lemma decodeHex_Inl:
  "decodeHex s = Inl e \<Longrightarrow>
     (\<exists>c \<in> set s. \<not> is_hex_char c \<and> e = InvalidByte c)
     \<or> ((\<forall>c \<in> set s. is_hex_char c) \<and> odd (length s) \<and> e = OddLength (length s))"
  unfolding decodeHex_def by (rule decode_pairs_Inl)

lemma parse_outcome:
  "((\<exists>h. parse s = Inr h) \<longleftrightarrow>
      (\<forall>c \<in> set (cleanHex s). is_hex_char c) \<and> even (length (cleanHex s))
      \<and> length (cleanHex s) div 2 = 32)
   \<and> ((\<exists>e. parse s = Inl e) \<longleftrightarrow>
      (\<exists>c \<in> set (cleanHex s). \<not> is_hex_char c) \<or> odd (length (cleanHex s))
      \<or> length (cleanHex s) div 2 \<noteq> 32)
   \<and> (\<forall>h. parse s = Inr h \<longrightarrow> decodeHex (cleanHex s) = Inr (hash h) \<and> length (hash h) = 32)
   \<and> ((\<exists>c \<in> set (cleanHex s). \<not> is_hex_char c) \<longrightarrow>
        (\<exists>c \<in> set (cleanHex s). \<not> is_hex_char c \<and> parse s = Inl (InvalidByte c)))
   \<and> ((\<forall>c \<in> set (cleanHex s). is_hex_char c) \<and> odd (length (cleanHex s)) \<longrightarrow>
        parse s = Inl (OddLength (length (cleanHex s))))
   \<and> ((\<forall>c \<in> set (cleanHex s). is_hex_char c) \<and> even (length (cleanHex s))
        \<and> length (cleanHex s) div 2 \<noteq> 32 \<longrightarrow>
        parse s = Inl (Error (''Hash validation failed: expected 32 bytes, but got ''
                         @ number_to_string (length (cleanHex s) div 2) @ ''.'')))"
proof (cases "decodeHex (cleanHex s)")
  case (Inl e)
  then have p: "parse s = Inl e"
    by (simp add: parse_cleanHex)
  from decodeHex_Inl [OF Inl] show ?thesis
  proof
    assume "\<exists>c \<in> set (cleanHex s). \<not> is_hex_char c \<and> e = InvalidByte c"
    then show ?thesis
      using p by auto
  next
    assume "(\<forall>c \<in> set (cleanHex s). is_hex_char c) \<and> odd (length (cleanHex s))
      \<and> e = OddLength (length (cleanHex s))"
    then show ?thesis
      using p by auto
  qed
next
  case (Inr bs)
  then have ok: "(\<forall>c \<in> set (cleanHex s). is_hex_char c) \<and> even (length (cleanHex s))"
    using decode_pairs_Inr_iff [of "length (cleanHex s)" "cleanHex s"]
    by (auto simp: decodeHex_def)
  have len: "2 * length bs = length (cleanHex s)"
    using Inr by (auto simp: decodeHex_def dest: decode_pairs_length)
  then have half: "length (cleanHex s) div 2 = length bs"
    by simp
  have p: "parse s = new_Hash bs"
    using Inr by (simp add: parse_cleanHex)
  show ?thesis
  proof (cases "length bs = 32")
    case True
    then have "parse s = Inr \<lparr>hash = bs\<rparr>"
      by (simp add: p new_Hash_def Hash_LENGTH_def)
    with ok half True Inr show ?thesis
      by auto
  next
    case False
    then have "parse s = Inl (Error (validation_message (length bs)))"
      by (simp add: p new_Hash_def Hash_LENGTH_def)
    with ok half False show ?thesis
      by (auto simp: validation_message_eq)
  qed
qed

lemma parse_0X_prefixed:
  assumes "take 2 s = ''0X''"
  shows "parse s = Inl (InvalidByte CHR ''X'')"
proof -
  have "s = ''0X'' @ drop 2 s"
    using assms append_take_drop_id [of 2 s] by simp
  then show ?thesis
    using parse_0X [of "drop 2 s"] by simp
qed

text \<open>
  Claim C6 (failure conditions of \<open>parse\<close>), as the spec states it, with the optional
  prefix \<open>0x\<close> or \<open>0X\<close>. The string \<open>0X\<close> followed by 62 zeros and \<open>ff\<close> has, once the
  prefix is removed, none of the three faults: it consists of hexadecimal digits, has
  even length and stands for 32 bytes. Yet \<open>parse\<close> fails on it: \<open>parse\<close> does not take
  \<open>0X\<close> off, and the decoder meets the character \<open>X\<close>.
\<close>

theorem parse_failure_0X_counterexample:
  "list_all is_hex_char (without_optional_prefix (''0X'' @ replicate 62 CHR ''0'' @ ''ff''))
   \<and> even (length (without_optional_prefix (''0X'' @ replicate 62 CHR ''0'' @ ''ff'')))
   \<and> length (without_optional_prefix (''0X'' @ replicate 62 CHR ''0'' @ ''ff'')) div 2 = 32
   \<and> parse (''0X'' @ replicate 62 CHR ''0'' @ ''ff'') = Inl (InvalidByte CHR ''X'')"
  by code_simp

text \<open>
  Claim C6, amended: the optional prefix is the lower-case \<open>0x\<close> only. Let \<open>cleanHex s\<close>
  be \<open>s\<close> without the prefix that \<open>parse\<close> takes off (\<open>0x\<close>, when \<open>s\<close> starts with it);
  it is the spec's string without its optional prefix unless \<open>s\<close> starts with \<open>0X\<close>, and a
  string that starts with \<open>0X\<close> always fails, on the character \<open>X\<close>. \<open>parse s\<close> succeeds
  exactly when \<open>cleanHex s\<close> consists of hexadecimal digits, has even length and decodes
  to 32 bytes, and then the Hash holds the decoded bytes. In every other case \<open>parse s\<close>
  fails: with the decoder's error for an offending character when there is one, with
  the decoder's error for an odd length when all characters are digits, and otherwise
  (digits, even length, a byte count \<open>n\<close> other than 32) with the constructor's error
  whose message reads \<open>expected 32 bytes, but got n\<close>.
\<close>

theorem parse_failure_conditions:
  "(take 2 s \<noteq> ''0X'' \<longrightarrow> without_optional_prefix s = cleanHex s)
   \<and> (take 2 s = ''0X'' \<longrightarrow> cleanHex s = s \<and> parse s = Inl (InvalidByte CHR ''X''))
   \<and> ((\<exists>h. parse s = Inr h) \<longleftrightarrow>
      (\<forall>c \<in> set (cleanHex s). is_hex_char c) \<and> even (length (cleanHex s))
      \<and> length (cleanHex s) div 2 = 32)
   \<and> ((\<exists>e. parse s = Inl e) \<longleftrightarrow>
      (\<exists>c \<in> set (cleanHex s). \<not> is_hex_char c) \<or> odd (length (cleanHex s))
      \<or> length (cleanHex s) div 2 \<noteq> 32)
   \<and> (\<forall>h. parse s = Inr h \<longrightarrow> decodeHex (cleanHex s) = Inr (hash h) \<and> length (hash h) = 32)
   \<and> ((\<exists>c \<in> set (cleanHex s). \<not> is_hex_char c) \<longrightarrow>
        (\<exists>c \<in> set (cleanHex s). \<not> is_hex_char c \<and> parse s = Inl (InvalidByte c)))
   \<and> ((\<forall>c \<in> set (cleanHex s). is_hex_char c) \<and> odd (length (cleanHex s)) \<longrightarrow>
        parse s = Inl (OddLength (length (cleanHex s))))
   \<and> ((\<forall>c \<in> set (cleanHex s). is_hex_char c) \<and> even (length (cleanHex s))
        \<and> length (cleanHex s) div 2 \<noteq> 32 \<longrightarrow>
        parse s = Inl (Error (''Hash validation failed: expected 32 bytes, but got ''
                         @ number_to_string (length (cleanHex s) div 2) @ ''.'')))"
proof -
  have a: "take 2 s \<noteq> ''0X'' \<longrightarrow> without_optional_prefix s = cleanHex s"
    by (simp add: without_optional_prefix_def cleanHex_def)
  have b: "take 2 s = ''0X'' \<longrightarrow> cleanHex s = s \<and> parse s = Inl (InvalidByte CHR ''X'')"
    by (simp add: cleanHex_def parse_0X_prefixed)
  show ?thesis
    by (rule conjI [OF a conjI [OF b parse_outcome]])
qed

theorem parse_failure_conditions_witness:
  "parse ''1234'' = Inl (Error ''Hash validation failed: expected 32 bytes, but got 2.'')
   \<and> parse ''0x123'' = Inl (OddLength 3)
   \<and> parse ''0X12'' = Inl (InvalidByte CHR ''X'')
   \<and> (\<exists>c \<in> set ''12g4''. \<not> is_hex_char c \<and> parse ''12g4'' = Inl (InvalidByte c))
   \<and> (\<exists>h. parse ''0xABCDEFabcdef0123456789ABCDEFabcdef0123456789ABCDEFabcdef01234567'' = Inr h)"
proof -
  have n: "number_to_string (Suc (Suc 0)) = ''2''"
    by code_simp
  have a: "parse ''1234'' = Inl (Error ''Hash validation failed: expected 32 bytes, but got 2.'')"
    using parse_failure_conditions [of "''1234''"]
    by (simp add: cleanHex_def is_hex_char_def n)
  have b: "parse ''0x123'' = Inl (OddLength 3)"
    using parse_failure_conditions [of "''0x123''"]
    by (simp add: cleanHex_def is_hex_char_def)
  have x: "parse ''0X12'' = Inl (InvalidByte CHR ''X'')"
    using parse_failure_conditions [of "''0X12''"]
    by simp
  have c: "\<exists>c \<in> set ''12g4''. \<not> is_hex_char c \<and> parse ''12g4'' = Inl (InvalidByte c)"
    using parse_failure_conditions [of "''12g4''"]
    by (simp add: cleanHex_def is_hex_char_def)
  have d: "\<exists>h. parse ''0xABCDEFabcdef0123456789ABCDEFabcdef0123456789ABCDEFabcdef01234567'' = Inr h"
    using parse_failure_conditions
      [of "''0xABCDEFabcdef0123456789ABCDEFabcdef0123456789ABCDEFabcdef01234567''"]
    by (simp add: cleanHex_def is_hex_char_def)
  from a b x c d show ?thesis
    by (intro conjI)
qed

section \<open>Formatting, serialization and the invariant of construction\<close>

lemma toString_length: "length (hash h) = 32 \<Longrightarrow> length (toString h) = 64"
  by (simp add: toString_def length_encodeHex)

lemma toString_charset: "set (toString h) \<subseteq> set ''0123456789abcdef''"
  using set_encodeHex [of "hash h"] unfolding hexTable_set by (simp add: toString_def)

text \<open>
  Claim C8 (structured serialization). \<open>toJSON\<close> returns the very string \<open>toString\<close>
  returns; for a Hash of 32 bytes that is a string of 64 lower-case hexadecimal digits.
\<close>

theorem toJSON_is_toString:
  "toJSON h = toString h
   \<and> (length (hash h) = 32 \<longrightarrow>
        length (toJSON h) = 64 \<and> set (toJSON h) \<subseteq> set ''0123456789abcdef'')"
  using toString_charset [of h] by (simp add: toJSON_def toString_length)

theorem toJSON_is_toString_witness:
  "toJSON \<lparr>hash = replicate 31 0 @ [1]\<rparr>
     = ''0000000000000000000000000000000000000000000000000000000000000001''
   \<and> length (toJSON \<lparr>hash = replicate 31 0 @ [1]\<rparr>) = 64"
proof -
  have t: "toString \<lparr>hash = replicate 31 0 @ [1]\<rparr>
       = ''0000000000000000000000000000000000000000000000000000000000000001''"
    by code_simp
  have j: "toJSON \<lparr>hash = replicate 31 0 @ [1]\<rparr> = toString \<lparr>hash = replicate 31 0 @ [1]\<rparr>"
    using toJSON_is_toString [of "\<lparr>hash = replicate 31 0 @ [1]\<rparr>"] by (rule conjunct1)
  have l: "length (toJSON \<lparr>hash = replicate 31 0 @ [1]\<rparr>) = 64"
    using toJSON_is_toString [of "\<lparr>hash = replicate 31 0 @ [1]\<rparr>", THEN conjunct2] by simp
  from j t have "toJSON \<lparr>hash = replicate 31 0 @ [1]\<rparr>
     = ''0000000000000000000000000000000000000000000000000000000000000001''"
    by (rule trans)
  then show ?thesis
    using l by (rule conjI)
qed

lemma substring_prefix: "0 \<le> n \<Longrightarrow> n \<le> int (length s) \<Longrightarrow> substring s 0 n = take (nat n) s"
  by (simp add: substring_def Let_def min_def max_def)

lemma substring_from_suffix:
  "0 \<le> n \<Longrightarrow> n \<le> int (length s) \<Longrightarrow> substring_from s n = drop (nat n) s"
  by (simp add: substring_from_def substring_def Let_def min_def max_def)

text \<open>
  Claim C9 (format of \<open>toShortString\<close>). For a Hash of 32 bytes, \<open>toShortString\<close> is the
  first 6 characters of \<open>toString\<close>, three dots, and the last 6 characters of
  \<open>toString\<close>, 15 characters in all. The Hash built by \<open>fromBytes\<close> from 31 zero bytes
  followed by a byte 1 gives \<open>000000...000001\<close>.
\<close>

theorem toShortString_format:
  assumes "length (hash h) = 32"
  shows "toShortString h
      = take 6 (toString h) @ ''...'' @ drop (length (toString h) - 6) (toString h)
    \<and> length (toString h) = 64
    \<and> length (toShortString h) = 15
    \<and> (\<exists>h1. fromBytes (replicate 31 0 @ [1]) = Inr h1 \<and> toShortString h1 = ''000000...000001'')"
proof -
  have l: "length (toString h) = 64"
    using assms by (rule toString_length)
  have f: "toShortString h
      = take 6 (toString h) @ ''...'' @ drop (length (toString h) - 6) (toString h)"
    by (simp add: toShortString_def Let_def l substring_prefix substring_from_suffix)
  have n: "length (toShortString h) = 15"
    by (simp add: f l)
  have "fromBytes (replicate 31 0 @ [1]) = Inr \<lparr>hash = replicate 31 0 @ [1]\<rparr>
      \<and> toShortString \<lparr>hash = replicate 31 0 @ [1]\<rparr> = ''000000...000001''"
    by code_simp
  with f l n show ?thesis
    by blast
qed

theorem toShortString_format_witness:
  "toShortString \<lparr>hash = replicate 32 171\<rparr> = ''ababab...ababab''
   \<and> length (toShortString \<lparr>hash = replicate 32 171\<rparr>) = 15"
proof -
  have v: "toShortString \<lparr>hash = replicate 32 171\<rparr> = ''ababab...ababab''"
    by code_simp
  have "length (toShortString \<lparr>hash = replicate 32 171\<rparr>) = 15"
    using toShortString_format [of "\<lparr>hash = replicate 32 171\<rparr>"] by simp
  with v show ?thesis
    by (rule conjI)
qed

lemma new_Hash_length: "new_Hash bs = Inr h \<Longrightarrow> length (hash h) = 32"
  by (auto simp: new_Hash_Inr_iff)

text \<open>
  Claim C10 (the 32-byte invariant on every construction path). \<open>digest\<close> passes the
  collaborator's buffer to the same constructor: a buffer of 32 bytes becomes the Hash,
  a buffer of any other length \<open>n\<close> makes \<open>digest\<close> fail with the constructor's error
  \<open>expected 32 bytes, but got n\<close>, and a failure of the collaborator is passed on.
  Hence every Hash obtained from \<open>fromBytes\<close>, \<open>parse\<close> or \<open>digest\<close> has exactly 32
  bytes, whatever the collaborator returns.
\<close>

theorem every_Hash_has_32_bytes:
  "digest subtle_digest data =
     (case subtle_digest data of
        Inl e \<Rightarrow> Inl e
      | Inr buffer \<Rightarrow>
          if length buffer = 32 then Inr \<lparr>hash = buffer\<rparr>
          else Inl (Error (''Hash validation failed: expected 32 bytes, but got ''
                      @ number_to_string (length buffer) @ ''.'')))
   \<and> (\<forall>h. digest subtle_digest data = Inr h \<longrightarrow> length (hash h) = 32)
   \<and> (\<forall>h. constructed subtle_digest h \<longrightarrow> length (hash h) = 32)"
proof (intro conjI allI impI)
  show "digest subtle_digest data =
     (case subtle_digest data of
        Inl e \<Rightarrow> Inl e
      | Inr buffer \<Rightarrow>
          if length buffer = 32 then Inr \<lparr>hash = buffer\<rparr>
          else Inl (Error (''Hash validation failed: expected 32 bytes, but got ''
                      @ number_to_string (length buffer) @ ''.'')))"
    by (simp add: digest_def new_Hash_def Hash_LENGTH_def validation_message_eq split: sum.splits)
next
  fix h
  assume "digest subtle_digest data = Inr h"
  then show "length (hash h) = 32"
    by (auto simp: digest_def split: sum.splits dest: new_Hash_length)
next
  fix h
  assume "constructed subtle_digest h"
  then show "length (hash h) = 32"
  proof cases
    case (by_fromBytes bytes)
    then show ?thesis
      by (auto simp: fromBytes_def dest: new_Hash_length)
  next
    case (by_parse hex)
    then show ?thesis
      by (auto simp: parse_def Let_def split: sum.splits dest: new_Hash_length)
  next
    case (by_digest data')
    then show ?thesis
      by (auto simp: digest_def split: sum.splits dest: new_Hash_length)
  qed
qed

theorem every_Hash_has_32_bytes_witness:
  "digest (\<lambda>data. Inr (replicate 31 0)) [104, 105]
     = Inl (Error ''Hash validation failed: expected 32 bytes, but got 31.'')
   \<and> digest (\<lambda>data. Inr (replicate 32 1)) [104, 105] = Inr \<lparr>hash = replicate 32 1\<rparr>
   \<and> constructed (\<lambda>data. Inr (replicate 32 1)) \<lparr>hash = replicate 32 1\<rparr>
   \<and> length (hash \<lparr>hash = replicate 32 (1::byte)\<rparr>) = 32"
proof -
  have n: "number_to_string 31 = ''31''"
    by code_simp
  have a: "digest (\<lambda>data. Inr (replicate 31 0)) [104, 105]
     = Inl (Error ''Hash validation failed: expected 32 bytes, but got 31.'')"
    using every_Hash_has_32_bytes [of "\<lambda>data. Inr (replicate 31 0)" "[104, 105]"]
    by (simp add: n)
  have b: "digest (\<lambda>data. Inr (replicate 32 1)) [104, 105] = Inr \<lparr>hash = replicate 32 1\<rparr>"
    using every_Hash_has_32_bytes [of "\<lambda>data. Inr (replicate 32 1)" "[104, 105]"]
    by simp
  have c: "constructed (\<lambda>data. Inr (replicate 32 1)) \<lparr>hash = replicate 32 1\<rparr>"
    using b by (rule by_digest)
  have d: "length (hash \<lparr>hash = replicate 32 (1::byte)\<rparr>) = 32"
    using every_Hash_has_32_bytes [of "\<lambda>data. Inr (replicate 32 1)" "[104, 105]"] c
    by blast
  from a b c d show ?thesis
    by (intro conjI)
qed

end
